theory Spec2Isabelle
  imports Main "HOL-Library.Multiset"
begin

section \<open>Data model of \<^verbatim>\<open>qc_grader/util.py\<close>\<close>

text \<open>
  The functions of \<^verbatim>\<open>util.py\<close> inspect objects of the quantum SDK through four things
  only: the class of an object (\<^verbatim>\<open>isinstance\<close>), its attributes \<^verbatim>\<open>name\<close> and
  \<^verbatim>\<open>num_qubits\<close>, and its \<^verbatim>\<open>definition\<close>, which is either \<^verbatim>\<open>None\<close> or a circuit
  whose \<^verbatim>\<open>data\<close> is a list of triples (operation, qubit arguments, classical arguments).

  The class of an object is recorded as far as the \<^verbatim>\<open>isinstance\<close> tests of the module can tell
  classes apart: the three classes named in \<^verbatim>\<open>gate_cost\<close>, every other subclass of
  \<^verbatim>\<open>Gate\<close>, and the instructions that are not gates (barrier, measurement and the rest).
\<close>

datatype cls = UGate | U3Gate | CXGate | OtherGate | Barrier | Measure | OtherInstruction

datatype instruction =
  Instruction (cls: cls) (name: string) (num_qubits: int)
    (definition': "(instruction \<times> nat list \<times> nat list) list option")

type_synonym circuit_data = "(instruction \<times> nat list \<times> nat list) list"

text \<open>\<^verbatim>\<open>isinstance(g, Gate)\<close>: the three named classes are subclasses of \<^verbatim>\<open>Gate\<close>.\<close>

fun isinstance_Gate :: "instruction \<Rightarrow> bool" where
  "isinstance_Gate g = (cls g \<in> {UGate, U3Gate, CXGate, OtherGate})"

text \<open>
  Exceptions of the module. \<^verbatim>\<open>except Exception\<close> catches every class derived from
  \<^verbatim>\<open>Exception\<close>; \<^verbatim>\<open>KeyboardInterrupt\<close> and \<^verbatim>\<open>SystemExit\<close> derive from
  \<^verbatim>\<open>BaseException\<close> only.
\<close>

datatype exn =
    AttributeError
  | KeyError
  | IBMQProviderError
  | OtherException string
  | KeyboardInterrupt
  | SystemExit

fun isinstance_Exception :: "exn \<Rightarrow> bool" where
  "isinstance_Exception KeyboardInterrupt = False"
| "isinstance_Exception SystemExit = False"
| "isinstance_Exception _ = True"

section \<open>The memoised gate cost\<close>

text \<open>
  \<^verbatim>\<open>cached(key_function)\<close> attaches a dictionary to the decorated function. For
  \<^verbatim>\<open>gate_cost\<close> the keys are the pairs of \<^verbatim>\<open>gate_key\<close> and the values the integers that
  the function returned. The dictionary is the state that every call takes and returns.
\<close>

type_synonym key = "string \<times> int"
type_synonym cache = "key \<rightharpoonup> int"

fun gate_key :: "instruction \<Rightarrow> key" where
  "gate_key gate = (name gate, num_qubits gate)"

text \<open>
  \<^verbatim>\<open>gate_cost\<close> is the decorated function (\<^verbatim>\<open>_decorated\<close> of \<^verbatim>\<open>cached\<close>),
  \<^verbatim>\<open>gate_cost_body\<close> the function under the decorator, whose recursive calls go through the
  global name and so through the cache, and \<^verbatim>\<open>sum_costs\<close> is
  \<^verbatim>\<open>sum(map(gate_cost, (g for g, _, _ in data)))\<close>: the entries are visited from left to
  right, each call starts from the cache the previous one left, and the first exception ends
  the sum. When the body raises, the assignment \<^verbatim>\<open>f.__cache[key] = ...\<close> does not happen.
\<close>

function gate_cost :: "cache \<Rightarrow> instruction \<Rightarrow> (exn + int) \<times> cache"
  and gate_cost_body :: "cache \<Rightarrow> instruction \<Rightarrow> (exn + int) \<times> cache"
  and sum_costs :: "cache \<Rightarrow> circuit_data \<Rightarrow> (exn + int) \<times> cache"
where
  "gate_cost c gate =
     (let key = gate_key gate in
      case c key of
        Some v \<Rightarrow> (Inr v, c)
      | None \<Rightarrow>
          (case gate_cost_body c gate of
             (Inl e, c') \<Rightarrow> (Inl e, c')
           | (Inr v, c') \<Rightarrow> (Inr v, c'(key \<mapsto> v))))"
| "gate_cost_body c gate =
     (if cls gate = UGate then (Inr 1, c)
      else if cls gate = U3Gate then (Inr 1, c)
      else if cls gate = CXGate then (Inr 10, c)
      else (case definition' gate of
              None \<Rightarrow> (Inl AttributeError, c)
            | Some data \<Rightarrow> sum_costs c data))"
| "sum_costs c [] = (Inr 0, c)"
| "sum_costs c ((g, _, _) # data) =
     (case gate_cost c g of
        (Inl e, c') \<Rightarrow> (Inl e, c')
      | (Inr v, c') \<Rightarrow>
          (case sum_costs c' data of
             (Inl e, c'') \<Rightarrow> (Inl e, c'')
           | (Inr s, c'') \<Rightarrow> (Inr (v + s), c'')))"
  by pat_completeness auto

text \<open>
  A gate is a finite tree here, so the recursion ends: from a gate to its body, from the body
  to the entries of the definition, from a list of entries to its first entry and to its rest.
  The functions never compare objects, so a gate stands for every object that unfolds into
  it; objects whose definitions lead back to themselves are the subject of the last section
  of definitions.
\<close>

termination
proof (relation "measures
    [\<lambda>x. case x of
        Inl (c, gate) \<Rightarrow> size gate
      | Inr (Inl (c, gate)) \<Rightarrow> size gate
      | Inr (Inr (c, data)) \<Rightarrow> size_list (size_prod size (\<lambda>_. 0)) data,
     \<lambda>x. case x of Inl _ \<Rightarrow> Suc 0 | Inr _ \<Rightarrow> 0]", goal_cases)
  case 1
  show ?case by simp
next
  case 2
  show ?case by simp
next
  case (3 c gate data)
  then show ?case by (cases gate) simp
next
  case 4
  show ?case by simp
next
  case 5
  show ?case by simp
qed

section \<open>Circuit cost and the two-qubit test\<close>

text \<open>
  A circuit is read through its \<^verbatim>\<open>data\<close> only. \<^verbatim>\<open>compute_cost\<close> prints a line and sums
  \<^verbatim>\<open>gate_cost\<close> over the entries that pass \<^verbatim>\<open>isinstance(g, Gate)\<close>; the printed line
  is not part of the model.
\<close>

definition compute_cost :: "cache \<Rightarrow> circuit_data \<Rightarrow> (exn + int) \<times> cache" where
  "compute_cost c circuit = sum_costs c (filter (\<lambda>(g, _, _). isinstance_Gate g) circuit)"

text \<open>\<^verbatim>\<open>any(isinstance(g, CXGate) for g, _, _ in circuit.data)\<close> stops at the first hit.\<close>

fun has_cx :: "circuit_data \<Rightarrow> bool" where
  "has_cx [] = False"
| "has_cx ((g, _, _) # circuit) = (if cls g = CXGate then True else has_cx circuit)"

section \<open>Costs that depend on the key only\<close>

text \<open>
  The cache identifies gates by \<^verbatim>\<open>(name, num_qubits)\<close>. The following predicates say when
  that identification is sound. \<open>kc\<close> assigns a cost to every key; a cache agrees with it when
  every cached value is the assigned one, and a gate is coherent with it when the three
  branches of \<^verbatim>\<open>gate_cost\<close> give the assigned cost at the gate and at every gate below it.
\<close>

definition agrees :: "(key \<Rightarrow> int) \<Rightarrow> cache \<Rightarrow> bool" where
  "agrees kc c = (\<forall>k v. c k = Some v \<longrightarrow> kc k = v)"

definition key_sum :: "(key \<Rightarrow> int) \<Rightarrow> circuit_data \<Rightarrow> int" where
  "key_sum kc data = sum_list (map (\<lambda>(g, _, _). kc (gate_key g)) data)"

fun coherent :: "(key \<Rightarrow> int) \<Rightarrow> instruction \<Rightarrow> bool"
  and coherent_data :: "(key \<Rightarrow> int) \<Rightarrow> circuit_data \<Rightarrow> bool"
where
  "coherent kc (Instruction k n q d) =
     (if k = UGate \<or> k = U3Gate then kc (n, q) = 1
      else if k = CXGate then kc (n, q) = 10
      else (case d of
              None \<Rightarrow> False
            | Some data \<Rightarrow> kc (n, q) = key_sum kc data \<and> coherent_data kc data))"
| "coherent_data kc [] = True"
| "coherent_data kc ((g, _, _) # data) = (coherent kc g \<and> coherent_data kc data)"

section \<open>Provider and job utilities\<close>

text \<open>
  The utilities call the SDK and the cloud service. A call into them takes the state of the
  outside world and returns the new state with either a value or the exception it raised.
  \<^verbatim>\<open>retrieve_job\<close> stands for \<^verbatim>\<open>provider.backends.retrieve_job(job_id)\<close>,
  \<^verbatim>\<open>download_url\<close> for
  \<^verbatim>\<open>provider._api_client.account_api.job(job_id).download_url()['url']\<close> and
  \<^verbatim>\<open>result_url\<close> for the same chain with \<^verbatim>\<open>result_url()\<close>.
\<close>

datatype pyval = PNone | PBool bool | PStr string | PTuple "pyval list"

record ('w, 'p, 'j) sdk =
  IBMQ_get_provider :: "'w \<Rightarrow> (exn + 'p) \<times> 'w"
  IBMQ_load_account :: "'w \<Rightarrow> (exn + 'p) \<times> 'w"
  retrieve_job :: "'p \<Rightarrow> string \<Rightarrow> 'w \<Rightarrow> (exn + 'j) \<times> 'w"
  job_id :: "'j \<Rightarrow> 'w \<Rightarrow> (exn + string) \<times> 'w"
  download_url :: "'p \<Rightarrow> string \<Rightarrow> 'w \<Rightarrow> (exn + pyval) \<times> 'w"
  result_url :: "'p \<Rightarrow> string \<Rightarrow> 'w \<Rightarrow> (exn + pyval) \<times> 'w"

text \<open>The argument of \<^verbatim>\<open>get_job_urls\<close> is a job identifier or a job object.\<close>

datatype 'j job_arg = JobId string | Job 'j

text \<open>
  \<^verbatim>\<open>get_provider\<close> falls back to \<^verbatim>\<open>IBMQ.load_account()\<close> on
  \<^verbatim>\<open>IBMQProviderError\<close> and lets every other exception through. The logger level it
  sets and restores belongs to the outside world.
\<close>

definition get_provider :: "('w, 'p, 'j) sdk \<Rightarrow> 'w \<Rightarrow> (exn + 'p) \<times> 'w" where
  "get_provider s w =
     (case IBMQ_get_provider s w of
        (Inr provider, w') \<Rightarrow> (Inr provider, w')
      | (Inl e, w') \<Rightarrow>
          if e = IBMQProviderError then IBMQ_load_account s w' else (Inl e, w'))"

text \<open>The statements under \<^verbatim>\<open>try\<close> in \<^verbatim>\<open>get_job\<close>, and the function.\<close>

definition get_job_try :: "('w, 'p, 'j) sdk \<Rightarrow> string \<Rightarrow> 'w \<Rightarrow> (exn + 'j) \<times> 'w" where
  "get_job_try s jid w =
     (case get_provider s w of
        (Inl e, w') \<Rightarrow> (Inl e, w')
      | (Inr provider, w') \<Rightarrow> retrieve_job s provider jid w')"

definition get_job :: "('w, 'p, 'j) sdk \<Rightarrow> string \<Rightarrow> 'w \<Rightarrow> (exn + 'j option) \<times> 'w" where
  "get_job s jid w =
     (case get_job_try s jid w of
        (Inr job, w') \<Rightarrow> (Inr (Some job), w')
      | (Inl e, w') \<Rightarrow> if isinstance_Exception e then (Inr None, w') else (Inl e, w'))"

text \<open>The statements under \<^verbatim>\<open>try\<close> in \<^verbatim>\<open>get_job_urls\<close>, and the function.\<close>

definition get_job_urls_try ::
  "('w, 'p, 'j) sdk \<Rightarrow> 'j job_arg \<Rightarrow> 'w \<Rightarrow> (exn + pyval \<times> pyval) \<times> 'w" where
  "get_job_urls_try s job w =
     (case (case job of Job j \<Rightarrow> job_id s j w | JobId jid \<Rightarrow> (Inr jid, w)) of
        (Inl e, w1) \<Rightarrow> (Inl e, w1)
      | (Inr jid, w1) \<Rightarrow>
     (case get_provider s w1 of
        (Inl e, w2) \<Rightarrow> (Inl e, w2)
      | (Inr provider, w2) \<Rightarrow>
     (case download_url s provider jid w2 of
        (Inl e, w3) \<Rightarrow> (Inl e, w3)
      | (Inr durl, w3) \<Rightarrow>
     (case get_provider s w3 of
        (Inl e, w4) \<Rightarrow> (Inl e, w4)
      | (Inr provider', w4) \<Rightarrow>
     (case result_url s provider' jid w4 of
        (Inl e, w5) \<Rightarrow> (Inl e, w5)
      | (Inr rurl, w5) \<Rightarrow> (Inr (durl, rurl), w5))))))"

definition get_job_urls ::
  "('w, 'p, 'j) sdk \<Rightarrow> 'j job_arg \<Rightarrow> 'w \<Rightarrow> (exn + pyval) \<times> 'w" where
  "get_job_urls s job w =
     (case get_job_urls_try s job w of
        (Inr (durl, rurl), w') \<Rightarrow> (Inr (PTuple [durl, rurl]), w')
      | (Inl e, w') \<Rightarrow>
          if isinstance_Exception e then (Inr (PTuple [PNone, PNone]), w') else (Inl e, w'))"

text \<open>
  The values described by the annotation of \<^verbatim>\<open>get_job_urls\<close>,
  \<^verbatim>\<open>Tuple[bool, Optional[str], Optional[str]]\<close>.
\<close>

fun optional_str :: "pyval \<Rightarrow> bool" where
  "optional_str PNone = True"
| "optional_str (PStr _) = True"
| "optional_str _ = False"

fun annotated_return :: "pyval \<Rightarrow> bool" where
  "annotated_return (PTuple [PBool _, x, y]) = (optional_str x \<and> optional_str y)"
| "annotated_return _ = False"

section \<open>Gates as objects that refer to each other\<close>

text \<open>
  Objects of the SDK are mutable and refer to each other, so nothing in the language keeps the
  definition of a gate from containing the gate itself. For the question whether
  \<^verbatim>\<open>gate_cost\<close> returns at all, gates are objects in a store, addressed by references, and
  the same three functions run with a bound on the depth of nested calls of \<^verbatim>\<open>gate_cost\<close>:
  \<open>None\<close> says that the bound was reached.
\<close>

type_synonym ref = nat

datatype obj =
  Obj (cls_of: cls) (name_of: string) (num_qubits_of: int)
    (definition_of: "(ref \<times> nat list \<times> nat list) list option")

type_synonym store = "ref \<Rightarrow> obj"

fun gate_key_at :: "store \<Rightarrow> ref \<Rightarrow> key" where
  "gate_key_at h r = (name_of (h r), num_qubits_of (h r))"

fun gate_cost_at :: "nat \<Rightarrow> store \<Rightarrow> cache \<Rightarrow> ref \<Rightarrow> ((exn + int) \<times> cache) option"
  and gate_cost_body_at :: "nat \<Rightarrow> store \<Rightarrow> cache \<Rightarrow> ref \<Rightarrow> ((exn + int) \<times> cache) option"
  and sum_costs_at ::
    "nat \<Rightarrow> store \<Rightarrow> cache \<Rightarrow> (ref \<times> nat list \<times> nat list) list \<Rightarrow> ((exn + int) \<times> cache) option"
where
  "gate_cost_at 0 h c r = None"
| "gate_cost_at (Suc n) h c r =
     (let key = gate_key_at h r in
      case c key of
        Some v \<Rightarrow> Some (Inr v, c)
      | None \<Rightarrow>
          (case gate_cost_body_at n h c r of
             None \<Rightarrow> None
           | Some (Inl e, c') \<Rightarrow> Some (Inl e, c')
           | Some (Inr v, c') \<Rightarrow> Some (Inr v, c'(key \<mapsto> v))))"
| "gate_cost_body_at n h c r =
     (if cls_of (h r) = UGate then Some (Inr 1, c)
      else if cls_of (h r) = U3Gate then Some (Inr 1, c)
      else if cls_of (h r) = CXGate then Some (Inr 10, c)
      else (case definition_of (h r) of
              None \<Rightarrow> Some (Inl AttributeError, c)
            | Some data \<Rightarrow> sum_costs_at n h c data))"
| "sum_costs_at n h c [] = Some (Inr 0, c)"
| "sum_costs_at n h c ((r, _, _) # data) =
     (case gate_cost_at n h c r of
        None \<Rightarrow> None
      | Some (Inl e, c') \<Rightarrow> Some (Inl e, c')
      | Some (Inr v, c') \<Rightarrow>
          (case sum_costs_at n h c' data of
             None \<Rightarrow> None
           | Some (Inl e, c'') \<Rightarrow> Some (Inl e, c'')
           | Some (Inr s, c'') \<Rightarrow> Some (Inr (v + s), c'')))"

text \<open>The decomposition relation of a store: \<open>(r', r)\<close> when \<open>r'\<close> occurs in the definition of \<open>r\<close>.\<close>

definition decomposition :: "store \<Rightarrow> (ref \<times> ref) set" where
  "decomposition h =
     {(r', r). \<exists>data. definition_of (h r) = Some data \<and> r' \<in> fst ` set data}"

text \<open>
  A gate of the first model is the unfolding of an object of the store: \<open>represents h r g\<close>
  when the object at \<open>r\<close> has the class, the name and the number of qubits of \<open>g\<close> and its
  definition has the entries of the definition of \<open>g\<close>, in order, each referring to an object
  that the entry of \<open>g\<close> unfolds.
\<close>

fun represents :: "store \<Rightarrow> ref \<Rightarrow> instruction \<Rightarrow> bool"
  and represents_data ::
    "store \<Rightarrow> (ref \<times> nat list \<times> nat list) list \<Rightarrow> circuit_data \<Rightarrow> bool"
where
  "represents h r (Instruction k n q d) =
     (cls_of (h r) = k \<and> name_of (h r) = n \<and> num_qubits_of (h r) = q \<and>
      (case d of
         None \<Rightarrow> definition_of (h r) = None
       | Some data \<Rightarrow>
           (case definition_of (h r) of
              None \<Rightarrow> False
            | Some rdata \<Rightarrow> represents_data h rdata data)))"
| "represents_data h [] [] = True"
| "represents_data h ((r, qargs, cargs) # rdata) ((g, qargs', cargs') # data) =
     (qargs = qargs' \<and> cargs = cargs' \<and> represents h r g \<and> represents_data h rdata data)"
| "represents_data h [] (_ # _) = False"
| "represents_data h (_ # _) [] = False"

declare gate_cost.simps [simp del] gate_cost_body.simps [simp del] gate_key.simps [simp del]
  isinstance_Gate.simps [simp del] gate_cost_body_at.simps [simp del]
  gate_key_at.simps [simp del]

section \<open>Properties\<close>

subsection \<open>The decorator\<close>

lemma gate_cost_hit: "c (gate_key gate) = Some v \<Longrightarrow> gate_cost c gate = (Inr v, c)"
  by (simp add: gate_cost.simps)

lemma gate_cost_miss:
  "c (gate_key gate) = None \<Longrightarrow>
   gate_cost c gate =
     (case gate_cost_body c gate of
        (Inl e, c') \<Rightarrow> (Inl e, c')
      | (Inr v, c') \<Rightarrow> (Inr v, c'(gate_key gate \<mapsto> v)))"
  by (simp add: gate_cost.simps)

lemma gate_cost_stored:
  "gate_cost c gate = (Inr v, c') \<Longrightarrow> c' (gate_key gate) = Some v"
  by (auto simp: gate_cost.simps Let_def split: option.splits sum.splits prod.splits)

text \<open>
  C4. A call looks the key up first. When the key is cached the call returns the cached value
  and the cache as it is, whatever the gate's class and definition are: the function under
  the decorator has no part in the result. Otherwise the call runs the function under the
  decorator, stores the value it returns under the key and returns it. So after a call
  that returned \<open>w\<close>, a call on a gate with the same name and number of qubits returns \<open>w\<close>
  from the cache and leaves the cache as it is.
\<close>

theorem gate_cost_memoized:
  "(c (gate_key gate) = Some v \<longrightarrow> gate_cost c gate = (Inr v, c)) \<and>
   (c (gate_key gate) = None \<longrightarrow>
      gate_cost c gate =
        (case gate_cost_body c gate of
           (Inl e, c') \<Rightarrow> (Inl e, c')
         | (Inr v, c') \<Rightarrow> (Inr v, c'(gate_key gate \<mapsto> v)))) \<and>
   (gate_cost c gate = (Inr w, c1) \<and> gate_key gate' = gate_key gate \<longrightarrow>
      gate_cost c1 gate' = (Inr w, c1))"
proof (intro conjI impI)
  assume "c (gate_key gate) = Some v"
  then show "gate_cost c gate = (Inr v, c)" by (rule gate_cost_hit)
next
  assume "c (gate_key gate) = None"
  then show "gate_cost c gate =
        (case gate_cost_body c gate of
           (Inl e, c') \<Rightarrow> (Inl e, c')
         | (Inr v, c') \<Rightarrow> (Inr v, c'(gate_key gate \<mapsto> v)))"
    by (rule gate_cost_miss)
next
  assume a: "gate_cost c gate = (Inr w, c1) \<and> gate_key gate' = gate_key gate"
  then have "c1 (gate_key gate') = Some w"
    using gate_cost_stored [of c gate w c1] by simp
  then show "gate_cost c1 gate' = (Inr w, c1)" by (rule gate_cost_hit)
qed

text \<open>
  The instance: a gate named \<^verbatim>\<open>ccx\<close> that decomposes into two \<^verbatim>\<open>u\<close> gates and a
  \<^verbatim>\<open>cx\<close> gate is costed from the empty cache; then a gate of the same name and number of
  qubits that has no definition at all, whose own computation would raise, gets the cached 12.
\<close>

theorem gate_cost_memoized_witness:
  "gate_cost Map.empty
     (Instruction OtherGate ''ccx'' 3
        (Some [(Instruction UGate ''u'' 1 None, [0], []),
               (Instruction UGate ''u'' 1 None, [1], []),
               (Instruction CXGate ''cx'' 2 None, [0, 1], [])]))
     = (Inr 12, [(''u'', 1) \<mapsto> 1, (''cx'', 2) \<mapsto> 10, (''ccx'', 3) \<mapsto> 12]) \<and>
   gate_cost [(''u'', 1) \<mapsto> 1, (''cx'', 2) \<mapsto> 10, (''ccx'', 3) \<mapsto> 12]
     (Instruction OtherGate ''ccx'' 3 None)
     = (Inr 12, [(''u'', 1) \<mapsto> 1, (''cx'', 2) \<mapsto> 10, (''ccx'', 3) \<mapsto> 12])"
  using gate_cost_memoized
    [where c = Map.empty
       and gate = "Instruction OtherGate ''ccx'' 3
          (Some [(Instruction UGate ''u'' 1 None, [0], []),
                 (Instruction UGate ''u'' 1 None, [1], []),
                 (Instruction CXGate ''cx'' 2 None, [0, 1], [])])"
       and gate' = "Instruction OtherGate ''ccx'' 3 None"
       and w = 12
       and ?c1.0 = "[(''u'', 1) \<mapsto> 1, (''cx'', 2) \<mapsto> 10, (''ccx'', 3) \<mapsto> 12]"]
    gate_cost_memoized
    [where c = "[(''u'', 1) \<mapsto> 1, (''cx'', 2) \<mapsto> 10, (''ccx'', 3) \<mapsto> 12]"
       and gate = "Instruction OtherGate ''ccx'' 3 None" and v = 12]
  by (simp add: gate_cost_body.simps gate_cost.simps gate_key.simps)

text \<open>
  C5. The cache is keyed on the name and the number of qubits only. Once a call on one gate
  has returned \<open>v\<close>, every later call on a gate with the same name and number of qubits, in
  that cache or in any cache that extends it, returns \<open>v\<close>, whatever its own class and
  decomposition are.
\<close>

theorem gate_cost_by_key:
  assumes "gate_cost c gate = (Inr v, c1)"
    and "gate_key gate' = gate_key gate"
    and "c1 \<subseteq>\<^sub>m c2"
  shows "gate_cost c2 gate' = (Inr v, c2)"
proof -
  from assms(1) have "c1 (gate_key gate) = Some v" by (rule gate_cost_stored)
  with assms(3) have "c2 (gate_key gate) = Some v"
    by (metis domI map_le_def)
  with assms(2) show ?thesis by (simp add: gate_cost_hit)
qed

text \<open>
  The instance: a gate named \<^verbatim>\<open>oracle\<close> made of one \<^verbatim>\<open>u3\<close> gate is costed first; a
  different gate of the same name and number of qubits, made of two \<^verbatim>\<open>cx\<close> gates, is
  costed later, after the cache has taken another entry. It gets 1, not 20.
\<close>

theorem gate_cost_by_key_witness:
  "gate_cost Map.empty
     (Instruction OtherGate ''oracle'' 2 (Some [(Instruction U3Gate ''u3'' 1 None, [0], [])]))
     = (Inr 1, [(''u3'', 1) \<mapsto> 1, (''oracle'', 2) \<mapsto> 1]) \<and>
   gate_cost [(''u3'', 1) \<mapsto> 1, (''oracle'', 2) \<mapsto> 1, (''cx'', 2) \<mapsto> 10]
     (Instruction OtherGate ''oracle'' 2
        (Some [(Instruction CXGate ''cx'' 2 None, [0, 1], []),
               (Instruction CXGate ''cx'' 2 None, [1, 0], [])]))
     = (Inr 1, [(''u3'', 1) \<mapsto> 1, (''oracle'', 2) \<mapsto> 1, (''cx'', 2) \<mapsto> 10])"
proof -
  have first: "gate_cost Map.empty
      (Instruction OtherGate ''oracle'' 2 (Some [(Instruction U3Gate ''u3'' 1 None, [0], [])]))
      = (Inr 1, [(''u3'', 1) \<mapsto> 1, (''oracle'', 2) \<mapsto> 1])"
    by (simp add: gate_cost_body.simps gate_cost.simps gate_key.simps)
  have same_key: "gate_key (Instruction OtherGate ''oracle'' 2
        (Some [(Instruction CXGate ''cx'' 2 None, [0, 1], []),
               (Instruction CXGate ''cx'' 2 None, [1, 0], [])]))
      = gate_key (Instruction OtherGate ''oracle'' 2
        (Some [(Instruction U3Gate ''u3'' 1 None, [0], [])]))"
    by (simp add: gate_key.simps)
  have later: "[(''u3'', 1) \<mapsto> 1, (''oracle'', 2) \<mapsto> (1::int)]
      \<subseteq>\<^sub>m [(''u3'', 1) \<mapsto> 1, (''oracle'', 2) \<mapsto> 1, (''cx'', 2) \<mapsto> 10]"
    by (simp add: map_le_def)
  from first gate_cost_by_key [OF first same_key later] show ?thesis by simp
qed

subsection \<open>The three branches\<close>

text \<open>
  C1, as amended. When the key of the gate is not cached, \<^verbatim>\<open>gate_cost\<close> takes one of three
  branches: an instance of \<^verbatim>\<open>UGate\<close> or \<^verbatim>\<open>U3Gate\<close> costs 1, an instance of
  \<^verbatim>\<open>CXGate\<close> costs 10, and any other gate costs the sum of \<^verbatim>\<open>gate_cost\<close> over the
  entries of its definition, taken from left to right through the cache; the value is stored
  under the key. A gate without a definition raises and the first entry that raises ends the
  sum, and nothing is stored for the gate then. In particular a gate that decomposes into two
  single-qubit primitives and the two-qubit primitive costs 12 when none of the four keys is
  cached and the key of the two-qubit primitive is not the key of a single-qubit one.
\<close>

theorem gate_cost_three_branches:
  "(c (gate_key gate) = None \<longrightarrow>
      gate_cost c gate =
        (if cls gate = UGate \<or> cls gate = U3Gate then (Inr 1, c(gate_key gate \<mapsto> 1))
         else if cls gate = CXGate then (Inr 10, c(gate_key gate \<mapsto> 10))
         else (case definition' gate of
                 None \<Rightarrow> (Inl AttributeError, c)
               | Some data \<Rightarrow>
                   (case sum_costs c data of
                      (Inl e, c') \<Rightarrow> (Inl e, c')
                    | (Inr s, c') \<Rightarrow> (Inr s, c'(gate_key gate \<mapsto> s)))))) \<and>
   (cls gate \<notin> {UGate, U3Gate, CXGate} \<and>
    definition' gate = Some [(a, qa, ca), (b, qb, cb), (x, qx, cx)] \<and>
    cls a \<in> {UGate, U3Gate} \<and> cls b \<in> {UGate, U3Gate} \<and> cls x = CXGate \<and>
    c (gate_key gate) = None \<and> c (gate_key a) = None \<and> c (gate_key b) = None \<and>
    c (gate_key x) = None \<and> gate_key x \<noteq> gate_key a \<and> gate_key x \<noteq> gate_key b
    \<longrightarrow> fst (gate_cost c gate) = Inr 12)"
proof (intro conjI impI)
  assume "c (gate_key gate) = None"
  then show "gate_cost c gate =
        (if cls gate = UGate \<or> cls gate = U3Gate then (Inr 1, c(gate_key gate \<mapsto> 1))
         else if cls gate = CXGate then (Inr 10, c(gate_key gate \<mapsto> 10))
         else (case definition' gate of
                 None \<Rightarrow> (Inl AttributeError, c)
               | Some data \<Rightarrow>
                   (case sum_costs c data of
                      (Inl e, c') \<Rightarrow> (Inl e, c')
                    | (Inr s, c') \<Rightarrow> (Inr s, c'(gate_key gate \<mapsto> s)))))"
    by (simp add: gate_cost_miss gate_cost_body.simps split: option.splits)
next
  assume h: "cls gate \<notin> {UGate, U3Gate, CXGate} \<and>
    definition' gate = Some [(a, qa, ca), (b, qb, cb), (x, qx, cx)] \<and>
    cls a \<in> {UGate, U3Gate} \<and> cls b \<in> {UGate, U3Gate} \<and> cls x = CXGate \<and>
    c (gate_key gate) = None \<and> c (gate_key a) = None \<and> c (gate_key b) = None \<and>
    c (gate_key x) = None \<and> gate_key x \<noteq> gate_key a \<and> gate_key x \<noteq> gate_key b"
  then have ga: "gate_cost c a = (Inr 1, c(gate_key a \<mapsto> 1))"
    by (auto simp: gate_cost_miss gate_cost_body.simps)
  have gb: "gate_cost (c(gate_key a \<mapsto> 1)) b = (Inr 1, c(gate_key a \<mapsto> 1, gate_key b \<mapsto> 1))"
  proof (cases "gate_key b = gate_key a")
    case True
    then show ?thesis by (simp add: gate_cost_hit)
  next
    case False
    with h show ?thesis by (auto simp: gate_cost_miss gate_cost_body.simps)
  qed
  from h have gx: "gate_cost (c(gate_key a \<mapsto> 1, gate_key b \<mapsto> 1)) x
      = (Inr 10, c(gate_key a \<mapsto> 1, gate_key b \<mapsto> 1, gate_key x \<mapsto> 10))"
    by (simp add: gate_cost_miss gate_cost_body.simps)
  from h ga gb gx have "gate_cost_body c gate
      = (Inr 12, c(gate_key a \<mapsto> 1, gate_key b \<mapsto> 1, gate_key x \<mapsto> 10))"
    by (simp add: gate_cost_body.simps)
  with h show "fst (gate_cost c gate) = Inr 12"
    by (simp add: gate_cost_miss)
qed

theorem gate_cost_three_branches_witness:
  "gate_cost Map.empty (Instruction UGate ''u'' 1 None) = (Inr 1, [(''u'', 1) \<mapsto> 1]) \<and>
   gate_cost Map.empty (Instruction U3Gate ''u3'' 1 None) = (Inr 1, [(''u3'', 1) \<mapsto> 1]) \<and>
   gate_cost Map.empty (Instruction CXGate ''cx'' 2 None) = (Inr 10, [(''cx'', 2) \<mapsto> 10]) \<and>
   fst (gate_cost Map.empty
     (Instruction OtherGate ''ccx'' 3
        (Some [(Instruction UGate ''u'' 1 None, [0], []),
               (Instruction U3Gate ''u3'' 1 None, [1], []),
               (Instruction CXGate ''cx'' 2 None, [0, 1], [])]))) = Inr 12"
proof -
  have u: "gate_cost Map.empty (Instruction UGate ''u'' 1 None) = (Inr 1, [(''u'', 1) \<mapsto> 1])"
    using gate_cost_three_branches
      [where c = Map.empty and gate = "Instruction UGate ''u'' 1 None", THEN conjunct1]
    by (simp add: gate_key.simps)
  have u3: "gate_cost Map.empty (Instruction U3Gate ''u3'' 1 None)
      = (Inr 1, [(''u3'', 1) \<mapsto> 1])"
    using gate_cost_three_branches
      [where c = Map.empty and gate = "Instruction U3Gate ''u3'' 1 None", THEN conjunct1]
    by (simp add: gate_key.simps)
  have cx: "gate_cost Map.empty (Instruction CXGate ''cx'' 2 None)
      = (Inr 10, [(''cx'', 2) \<mapsto> 10])"
    using gate_cost_three_branches
      [where c = Map.empty and gate = "Instruction CXGate ''cx'' 2 None", THEN conjunct1]
    by (simp add: gate_key.simps)
  have ccx: "fst (gate_cost Map.empty
     (Instruction OtherGate ''ccx'' 3
        (Some [(Instruction UGate ''u'' 1 None, [0], []),
               (Instruction U3Gate ''u3'' 1 None, [1], []),
               (Instruction CXGate ''cx'' 2 None, [0, 1], [])]))) = Inr 12"
    by (rule gate_cost_three_branches
      [where c = Map.empty
         and a = "Instruction UGate ''u'' 1 None" and qa = "[0]" and ca = "[]"
         and b = "Instruction U3Gate ''u3'' 1 None" and qb = "[1]" and cb = "[]"
         and x = "Instruction CXGate ''cx'' 2 None" and qx = "[0, 1]" and cx = "[]",
       THEN conjunct2, THEN mp])
      (simp add: gate_key.simps)
  show ?thesis by (rule conjI [OF u conjI [OF u3 conjI [OF cx ccx]]])
qed

text \<open>
  C1 as stated holds for every gate, and that fails once the key is cached: a cached key
  returns the cached value whatever the class of the gate is. A custom gate named \<^verbatim>\<open>u\<close>
  on one qubit, made of two \<^verbatim>\<open>u3\<close> gates, is costed first; an instance of
  \<^verbatim>\<open>UGate\<close>, whose name is \<^verbatim>\<open>u\<close> and which acts on one qubit, then costs 2.
\<close>

theorem gate_cost_u_cached_counterexample:
  "gate_cost Map.empty
     (Instruction OtherGate ''u'' 1
        (Some [(Instruction U3Gate ''u3'' 1 None, [0], []),
               (Instruction U3Gate ''u3'' 1 None, [0], [])]))
     = (Inr 2, [(''u3'', 1) \<mapsto> 1, (''u'', 1) \<mapsto> 2]) \<and>
   gate_cost [(''u3'', 1) \<mapsto> 1, (''u'', 1) \<mapsto> 2] (Instruction UGate ''u'' 1 None)
     = (Inr 2, [(''u3'', 1) \<mapsto> 1, (''u'', 1) \<mapsto> 2])"
  by (simp add: gate_cost.simps gate_cost_body.simps gate_key.simps)

text \<open>
  C7, as amended. For a gate that is none of the three recognised classes and whose key is
  not cached: when it has no definition, \<^verbatim>\<open>gate.definition.data\<close> reads an attribute of
  \<^verbatim>\<open>None\<close>, the call raises \<^verbatim>\<open>AttributeError\<close> and the cache stays as it was; when
  its definition is an empty circuit the sum is over nothing, and the call returns 0 and
  stores it.
\<close>

theorem gate_cost_no_decomposition:
  "c (gate_key gate) = None \<and> cls gate \<notin> {UGate, U3Gate, CXGate} \<longrightarrow>
     (definition' gate = None \<longrightarrow> gate_cost c gate = (Inl AttributeError, c)) \<and>
     (definition' gate = Some [] \<longrightarrow> gate_cost c gate = (Inr 0, c(gate_key gate \<mapsto> 0)))"
  by (simp add: gate_cost_miss gate_cost_body.simps)

theorem gate_cost_no_decomposition_witness:
  "gate_cost Map.empty (Instruction OtherGate ''opaque'' 2 None) = (Inl AttributeError, Map.empty) \<and>
   gate_cost Map.empty (Instruction Barrier ''barrier'' 3 None) = (Inl AttributeError, Map.empty) \<and>
   gate_cost Map.empty (Instruction OtherGate ''empty'' 1 (Some []))
     = (Inr 0, [(''empty'', 1) \<mapsto> 0])"
  using
    gate_cost_no_decomposition [where c = Map.empty and gate = "Instruction OtherGate ''opaque'' 2 None"]
    gate_cost_no_decomposition [where c = Map.empty and gate = "Instruction Barrier ''barrier'' 3 None"]
    gate_cost_no_decomposition [where c = Map.empty and gate = "Instruction OtherGate ''empty'' 1 (Some [])"]
  by (simp add: gate_key.simps)

text \<open>
  C7 as stated has the empty definition fail like the absent one. It returns 0.
\<close>

theorem gate_cost_empty_decomposition_counterexample:
  "gate_cost Map.empty (Instruction OtherGate ''empty'' 1 (Some []))
     = (Inr 0, [(''empty'', 1) \<mapsto> 0])"
  by (simp add: gate_cost.simps gate_cost_body.simps gate_key.simps)

subsection \<open>The cache across calls\<close>

lemma cache_grows:
  "c \<subseteq>\<^sub>m snd (gate_cost c gate)"
  "c \<subseteq>\<^sub>m snd (gate_cost_body c gate)"
  "c \<subseteq>\<^sub>m snd (sum_costs c data)"
proof (induction c gate and c gate and c data rule: gate_cost_gate_cost_body_sum_costs.induct)
  case (1 c gate)
  show ?case
  proof (cases "c (gate_key gate)")
    case None
    with 1 have "c \<subseteq>\<^sub>m snd (gate_cost_body c gate)" by simp
    with None show ?thesis
      by (auto simp: gate_cost_miss map_le_def dom_def split: sum.splits prod.splits)
  next
    case (Some v)
    then show ?thesis by (simp add: gate_cost_hit)
  qed
next
  case (2 c gate)
  then show ?case by (auto simp: gate_cost_body.simps split: option.splits)
next
  case (3 c)
  show ?case by simp
next
  case (4 c g uu uv data)
  show ?case
  proof (cases "gate_cost c g")
    case (Pair r c')
    with 4 have a: "c \<subseteq>\<^sub>m c'" by simp
    show ?thesis
    proof (cases r)
      case (Inl e)
      with Pair a show ?thesis by simp
    next
      case (Inr v)
      with 4(2)[OF Pair[symmetric]] have "c' \<subseteq>\<^sub>m snd (sum_costs c' data)" by simp
      with a have "c \<subseteq>\<^sub>m snd (sum_costs c' data)" by (rule map_le_trans)
      with Pair Inr show ?thesis by (auto split: sum.splits prod.splits)
    qed
  qed
qed

text \<open>
  C6, as amended. Every call of \<^verbatim>\<open>gate_cost\<close>, whether it returns or raises, leaves a cache
  that contains every entry the call was given, with the same value: across calls entries
  are only added.
\<close>

theorem cache_preserved: "c \<subseteq>\<^sub>m snd (gate_cost c gate)"
  by (rule cache_grows(1))

text \<open>
  C6 as stated says more, that no entry is ever overwritten. That fails inside a call: the
  test \<^verbatim>\<open>key not in f.__cache\<close> is made before the function under the decorator runs and
  the assignment after it, and a nested call on a gate with the same key stores an entry in
  between. Below, a gate named \<^verbatim>\<open>a\<close> contains twice a gate that is also named \<^verbatim>\<open>a\<close>
  and consists of one \<^verbatim>\<open>u\<close> gate. When the function under the decorator returns 2 for the
  outer gate the cache holds 1 under \<^verbatim>\<open>('a', 1)\<close>; the assignment replaces it by 2.
\<close>

theorem cache_overwritten_counterexample:
  "gate_cost_body Map.empty
     (Instruction OtherGate ''a'' 1
        (Some [(Instruction OtherGate ''a'' 1
                  (Some [(Instruction UGate ''u'' 1 None, [0], [])]), [0], []),
               (Instruction OtherGate ''a'' 1
                  (Some [(Instruction UGate ''u'' 1 None, [0], [])]), [0], [])]))
     = (Inr 2, [(''u'', 1) \<mapsto> 1, (''a'', 1) \<mapsto> 1]) \<and>
   gate_cost Map.empty
     (Instruction OtherGate ''a'' 1
        (Some [(Instruction OtherGate ''a'' 1
                  (Some [(Instruction UGate ''u'' 1 None, [0], [])]), [0], []),
               (Instruction OtherGate ''a'' 1
                  (Some [(Instruction UGate ''u'' 1 None, [0], [])]), [0], [])]))
     = (Inr 2, [(''u'', 1) \<mapsto> 1, (''a'', 1) \<mapsto> 2])"
  by (simp add: gate_cost.simps gate_cost_body.simps gate_key.simps)

subsection \<open>Circuit cost\<close>

text \<open>
  When costs depend on the key only, the memoised functions compute the assigned costs and
  keep the cache in agreement with them.
\<close>

lemma coherent_sel:
  "coherent kc gate =
     (if cls gate = UGate \<or> cls gate = U3Gate then kc (gate_key gate) = 1
      else if cls gate = CXGate then kc (gate_key gate) = 10
      else (case definition' gate of
              None \<Rightarrow> False
            | Some data \<Rightarrow> kc (gate_key gate) = key_sum kc data \<and> coherent_data kc data))"
  by (cases gate) (auto simp: gate_key.simps split: option.splits)

lemma agrees_upd: "agrees kc c \<Longrightarrow> kc k = v \<Longrightarrow> agrees kc (c(k \<mapsto> v))"
  by (simp add: agrees_def)

lemma key_sum_Cons: "key_sum kc ((g, q, a) # data) = kc (gate_key g) + key_sum kc data"
  by (simp add: key_sum_def)

lemma key_sum_Nil: "key_sum kc [] = 0"
  by (simp add: key_sum_def)

lemma coherent_cost:
  "agrees kc c \<Longrightarrow> coherent kc gate \<Longrightarrow>
     \<exists>c'. gate_cost c gate = (Inr (kc (gate_key gate)), c') \<and> agrees kc c'"
  "agrees kc c \<Longrightarrow> coherent kc gate \<Longrightarrow>
     \<exists>c'. gate_cost_body c gate = (Inr (kc (gate_key gate)), c') \<and> agrees kc c'"
  "agrees kc c \<Longrightarrow> coherent_data kc data \<Longrightarrow>
     \<exists>c'. sum_costs c data = (Inr (key_sum kc data), c') \<and> agrees kc c'"
proof (induction c gate and c gate and c data rule: gate_cost_gate_cost_body_sum_costs.induct)
  case (1 c gate)
  show ?case
  proof (cases "c (gate_key gate)")
    case None
    with 1 obtain c' where b: "gate_cost_body c gate = (Inr (kc (gate_key gate)), c')"
      and a: "agrees kc c'" by blast
    from a have "agrees kc (c'(gate_key gate \<mapsto> kc (gate_key gate)))"
      by (simp add: agrees_upd)
    with None b show ?thesis by (simp add: gate_cost_miss)
  next
    case (Some v)
    with 1(2) have "kc (gate_key gate) = v" unfolding agrees_def by blast
    with Some 1(2) show ?thesis by (simp add: gate_cost_hit)
  qed
next
  case (2 c gate)
  show ?case
  proof (cases "cls gate = UGate \<or> cls gate = U3Gate \<or> cls gate = CXGate")
    case True
    with 2(2,3) show ?thesis
      by (auto simp: gate_cost_body.simps coherent_sel)
  next
    case False
    with 2(3) obtain data where d: "definition' gate = Some data"
      and k: "kc (gate_key gate) = key_sum kc data" and cd: "coherent_data kc data"
      by (auto simp: coherent_sel split: option.splits)
    from False d 2(1) 2(2) cd
    obtain c' where "sum_costs c data = (Inr (key_sum kc data), c')" and "agrees kc c'"
      by blast
    with False d k show ?thesis by (simp add: gate_cost_body.simps)
  qed
next
  case (3 c)
  then show ?case by (simp add: key_sum_Nil)
next
  case (4 c g uu uv data)
  from 4(4) have cg: "coherent kc g" and cd: "coherent_data kc data" by simp_all
  from 4(1)[OF 4(3) cg] obtain c' where g: "gate_cost c g = (Inr (kc (gate_key g)), c')"
    and a: "agrees kc c'" by blast
  from 4(2)[OF g[symmetric] refl a cd]
  obtain c'' where "sum_costs c' data = (Inr (key_sum kc data), c'')" and "agrees kc c''"
    by blast
  with g show ?case by (simp add: key_sum_Cons)
qed

lemma coherent_data_set: "coherent_data kc data \<longleftrightarrow> (\<forall>e \<in> set data. coherent kc (fst e))"
  by (induction data) auto

lemma key_sum_mset:
  "key_sum kc data = sum_mset (image_mset (\<lambda>(g, _, _). kc (gate_key g)) (mset data))"
  by (simp add: key_sum_def sum_mset_sum_list [symmetric])

lemma compute_cost_Nil: "compute_cost c [] = (Inr 0, c)"
  by (simp add: compute_cost_def)

lemma compute_cost_skip:
  "\<not> isinstance_Gate g \<Longrightarrow> compute_cost c ((g, q, a) # circuit) = compute_cost c circuit"
  by (simp add: compute_cost_def)

lemma compute_cost_gate:
  "isinstance_Gate g \<Longrightarrow>
   compute_cost c ((g, q, a) # circuit) =
     (case gate_cost c g of
        (Inl e, c') \<Rightarrow> (Inl e, c')
      | (Inr v, c') \<Rightarrow>
          (case compute_cost c' circuit of
             (Inl e, c'') \<Rightarrow> (Inl e, c'')
           | (Inr s, c'') \<Rightarrow> (Inr (v + s), c'')))"
  by (simp add: compute_cost_def split: prod.splits sum.splits)

lemma compute_cost_coherent:
  assumes "agrees kc c"
    and "coherent_data kc (filter (\<lambda>(g, _, _). isinstance_Gate g) circuit)"
  shows "fst (compute_cost c circuit)
    = Inr (key_sum kc (filter (\<lambda>(g, _, _). isinstance_Gate g) circuit))"
  using coherent_cost(3) [OF assms] by (auto simp: compute_cost_def)

text \<open>
  C2, as amended. \<^verbatim>\<open>compute_cost\<close> is the sum of \<^verbatim>\<open>gate_cost\<close> over exactly the entries
  whose operation is an instance of \<^verbatim>\<open>Gate\<close>, taken from left to right, each call
  starting from the cache the previous one left: the empty circuit costs 0, an entry that is
  not a gate (a barrier, a measurement) is skipped, and a gate entry adds its
  \<^verbatim>\<open>gate_cost\<close> to the cost of the rest. The total does not depend on the order of the
  entries when costs depend on the key only, that is when the cache agrees with an assignment
  of costs to keys with which every gate entry is coherent; it is then the sum of the assigned
  costs of the gate entries.
\<close>

theorem compute_cost_sum:
  "compute_cost c [] = (Inr 0, c) \<and>
   (\<not> isinstance_Gate g \<longrightarrow> compute_cost c ((g, q, a) # circuit) = compute_cost c circuit) \<and>
   (isinstance_Gate g \<longrightarrow>
      compute_cost c ((g, q, a) # circuit) =
        (case gate_cost c g of
           (Inl e, c') \<Rightarrow> (Inl e, c')
         | (Inr v, c') \<Rightarrow>
             (case compute_cost c' circuit of
                (Inl e, c'') \<Rightarrow> (Inl e, c'')
              | (Inr s, c'') \<Rightarrow> (Inr (v + s), c'')))) \<and>
   (agrees kc c \<and> coherent_data kc (filter (\<lambda>(g, _, _). isinstance_Gate g) circuit) \<and>
    mset circuit' = mset circuit \<longrightarrow>
      fst (compute_cost c circuit)
        = Inr (key_sum kc (filter (\<lambda>(g, _, _). isinstance_Gate g) circuit)) \<and>
      fst (compute_cost c circuit') = fst (compute_cost c circuit))"
proof (intro conjI impI)
  show "compute_cost c [] = (Inr 0, c)" by (rule compute_cost_Nil)
next
  assume "\<not> isinstance_Gate g"
  then show "compute_cost c ((g, q, a) # circuit) = compute_cost c circuit"
    by (rule compute_cost_skip)
next
  assume "isinstance_Gate g"
  then show "compute_cost c ((g, q, a) # circuit) =
        (case gate_cost c g of
           (Inl e, c') \<Rightarrow> (Inl e, c')
         | (Inr v, c') \<Rightarrow>
             (case compute_cost c' circuit of
                (Inl e, c'') \<Rightarrow> (Inl e, c'')
              | (Inr s, c'') \<Rightarrow> (Inr (v + s), c'')))"
    by (rule compute_cost_gate)
next
  assume h: "agrees kc c \<and> coherent_data kc (filter (\<lambda>(g, _, _). isinstance_Gate g) circuit) \<and>
    mset circuit' = mset circuit"
  then show "fst (compute_cost c circuit)
        = Inr (key_sum kc (filter (\<lambda>(g, _, _). isinstance_Gate g) circuit))"
    by (simp add: compute_cost_coherent)
next
  assume h: "agrees kc c \<and> coherent_data kc (filter (\<lambda>(g, _, _). isinstance_Gate g) circuit) \<and>
    mset circuit' = mset circuit"
  let ?P = "\<lambda>(g, _, _). isinstance_Gate g"
  from h have m: "mset (filter ?P circuit') = mset (filter ?P circuit)"
    by (simp add: mset_filter)
  then have "set (filter ?P circuit') = set (filter ?P circuit)" by (rule mset_eq_setD)
  with h have cd: "coherent_data kc (filter ?P circuit')"
    unfolding coherent_data_set by blast
  from m have ks: "key_sum kc (filter ?P circuit') = key_sum kc (filter ?P circuit)"
    by (simp only: key_sum_mset)
  from h have a: "agrees kc c" and cd0: "coherent_data kc (filter ?P circuit)" by simp_all
  have "fst (compute_cost c circuit') = Inr (key_sum kc (filter ?P circuit'))"
    by (rule compute_cost_coherent [OF a cd])
  also have "\<dots> = Inr (key_sum kc (filter ?P circuit))"
    by (simp only: ks)
  also have "\<dots> = fst (compute_cost c circuit)"
    by (rule compute_cost_coherent [OF a cd0, symmetric])
  finally show "fst (compute_cost c circuit') = fst (compute_cost c circuit)" .
qed

text \<open>
  The instance: a circuit with a \<^verbatim>\<open>u\<close> gate, a barrier, a \<^verbatim>\<open>cx\<close> gate and a
  measurement, and the same entries in reverse order. The barrier and the measurement have no
  definition and would raise if they were summed.
\<close>

theorem compute_cost_sum_witness:
  "fst (compute_cost Map.empty
     [(Instruction UGate ''u'' 1 None, [0], []),
      (Instruction Barrier ''barrier'' 2 None, [0, 1], []),
      (Instruction CXGate ''cx'' 2 None, [0, 1], []),
      (Instruction Measure ''measure'' 1 None, [1], [1])]) = Inr 11 \<and>
   fst (compute_cost Map.empty
     [(Instruction Measure ''measure'' 1 None, [1], [1]),
      (Instruction CXGate ''cx'' 2 None, [0, 1], []),
      (Instruction Barrier ''barrier'' 2 None, [0, 1], []),
      (Instruction UGate ''u'' 1 None, [0], [])]) = Inr 11"
proof -
  let ?kc = "\<lambda>k. if k = (''cx'', 2::int) then 10 else (1::int)"
  let ?circuit = "[(Instruction UGate ''u'' 1 None, [0], []),
      (Instruction Barrier ''barrier'' 2 None, [0, 1], []),
      (Instruction CXGate ''cx'' 2 None, [0, 1], []),
      (Instruction Measure ''measure'' 1 None, [1], [1])]"
  let ?circuit' = "[(Instruction Measure ''measure'' 1 None, [1], [1]),
      (Instruction CXGate ''cx'' 2 None, [0, 1], []),
      (Instruction Barrier ''barrier'' 2 None, [0, 1], []),
      (Instruction UGate ''u'' 1 None, [0], [])]"
  have hyp: "agrees ?kc Map.empty \<and>
      coherent_data ?kc (filter (\<lambda>(g, _, _). isinstance_Gate g) ?circuit) \<and>
      mset ?circuit' = mset ?circuit"
    by (simp add: agrees_def isinstance_Gate.simps)
  have key: "key_sum ?kc (filter (\<lambda>(g, _, _). isinstance_Gate g) ?circuit) = 11"
    by (simp add: key_sum_def isinstance_Gate.simps gate_key.simps)
  from compute_cost_sum [where c = Map.empty and kc = ?kc and circuit = ?circuit
      and circuit' = ?circuit', THEN conjunct2, THEN conjunct2, THEN conjunct2, THEN mp, OF hyp]
  show ?thesis by (simp only: key)
qed

text \<open>
  C2 as stated has the result independent of the order for every circuit. Two different
  gates with the same name and number of qubits break that: the one that comes first decides
  the cost of both.
\<close>

theorem compute_cost_order_counterexample:
  "fst (compute_cost Map.empty
     [(Instruction OtherGate ''oracle'' 1 (Some [(Instruction UGate ''u'' 1 None, [0], [])]), [0], []),
      (Instruction OtherGate ''oracle'' 1
         (Some [(Instruction UGate ''u'' 1 None, [0], []),
                (Instruction UGate ''u'' 1 None, [0], [])]), [1], [])]) = Inr 2 \<and>
   fst (compute_cost Map.empty
     [(Instruction OtherGate ''oracle'' 1
         (Some [(Instruction UGate ''u'' 1 None, [0], []),
                (Instruction UGate ''u'' 1 None, [0], [])]), [1], []),
      (Instruction OtherGate ''oracle'' 1 (Some [(Instruction UGate ''u'' 1 None, [0], [])]), [0], [])])
     = Inr 4"
  by (simp add: compute_cost_def gate_cost.simps gate_cost_body.simps gate_key.simps
      isinstance_Gate.simps)

subsection \<open>The two-qubit test\<close>

text \<open>
  C3. \<^verbatim>\<open>has_cx\<close> is true exactly when some entry of the circuit's data is an instance of
  \<^verbatim>\<open>CXGate\<close>. In particular it is false for a circuit of single-qubit operations only; in
  the SDK an instance of \<^verbatim>\<open>CXGate\<close> acts on two qubits, which is the second hypothesis on
  the entries.
\<close>

theorem has_cx_iff:
  "(has_cx circuit \<longleftrightarrow> (\<exists>e \<in> set circuit. cls (fst e) = CXGate)) \<and>
   ((\<forall>e \<in> set circuit.
        num_qubits (fst e) = 1 \<and> (cls (fst e) = CXGate \<longrightarrow> num_qubits (fst e) = 2))
      \<longrightarrow> \<not> has_cx circuit)"
  by (induction circuit rule: has_cx.induct) auto

theorem has_cx_iff_witness:
  "\<not> has_cx [(Instruction UGate ''u'' 1 None, [0], []),
              (Instruction U3Gate ''u3'' 1 None, [1], [])] \<and>
   has_cx [(Instruction UGate ''u'' 1 None, [0], []),
           (Instruction CXGate ''cx'' 2 None, [0, 1], [])]"
  using
    has_cx_iff [of "[(Instruction UGate ''u'' 1 None, [0], []),
                     (Instruction U3Gate ''u3'' 1 None, [1], [])]"]
    has_cx_iff [of "[(Instruction UGate ''u'' 1 None, [0], []),
                     (Instruction CXGate ''cx'' 2 None, [0, 1], [])]"]
  by simp

subsection \<open>Provider and job utilities\<close>

text \<open>
  C8, as amended. When the statements under \<^verbatim>\<open>try\<close> raise an exception that derives from
  \<^verbatim>\<open>Exception\<close>, \<^verbatim>\<open>get_job\<close> returns \<^verbatim>\<open>None\<close> and \<^verbatim>\<open>get_job_urls\<close> returns
  \<^verbatim>\<open>(None, None)\<close>. An exception that does not derive from \<^verbatim>\<open>Exception\<close> is not caught
  by \<^verbatim>\<open>except Exception\<close> and reaches the caller.
\<close>

theorem job_utilities_except_Exception:
  "(get_job_try s jid w = (Inl e, w') \<and> isinstance_Exception e \<longrightarrow>
      get_job s jid w = (Inr None, w')) \<and>
   (get_job_urls_try s job w = (Inl e, w') \<and> isinstance_Exception e \<longrightarrow>
      get_job_urls s job w = (Inr (PTuple [PNone, PNone]), w')) \<and>
   (get_job_try s jid w = (Inl e, w') \<and> \<not> isinstance_Exception e \<longrightarrow>
      get_job s jid w = (Inl e, w')) \<and>
   (get_job_urls_try s job w = (Inl e, w') \<and> \<not> isinstance_Exception e \<longrightarrow>
      get_job_urls s job w = (Inl e, w'))"
  by (simp add: get_job_def get_job_urls_def)

text \<open>
  The instance: the provider is found after \<^verbatim>\<open>IBMQ.load_account()\<close>; then the retrieval
  of the job fails in the service, and the download URL has no \<^verbatim>\<open>'url'\<close> entry.
\<close>

theorem job_utilities_except_Exception_witness:
  "get_job
     \<lparr>IBMQ_get_provider = \<lambda>w. (Inl IBMQProviderError, Suc w),
      IBMQ_load_account = \<lambda>w. (Inr (7::nat), Suc w),
      retrieve_job = \<lambda>p jid w. (Inl (OtherException ''IBMQBackendApiError''), Suc w),
      job_id = \<lambda>(j::nat) w. (Inr ''j42'', w),
      download_url = \<lambda>p jid w. (Inl KeyError, Suc w),
      result_url = \<lambda>p jid w. (Inr (PStr ''https://r''), Suc w)\<rparr> ''j42'' (0::nat)
     = (Inr None, 3) \<and>
   get_job_urls
     \<lparr>IBMQ_get_provider = \<lambda>w. (Inl IBMQProviderError, Suc w),
      IBMQ_load_account = \<lambda>w. (Inr (7::nat), Suc w),
      retrieve_job = \<lambda>p jid w. (Inl (OtherException ''IBMQBackendApiError''), Suc w),
      job_id = \<lambda>(j::nat) w. (Inr ''j42'', w),
      download_url = \<lambda>p jid w. (Inl KeyError, Suc w),
      result_url = \<lambda>p jid w. (Inr (PStr ''https://r''), Suc w)\<rparr> (Job 42) (0::nat)
     = (Inr (PTuple [PNone, PNone]), 3)"
proof -
  let ?s = "\<lparr>IBMQ_get_provider = \<lambda>w. (Inl IBMQProviderError, Suc w),
      IBMQ_load_account = \<lambda>w. (Inr (7::nat), Suc w),
      retrieve_job = \<lambda>p jid w. (Inl (OtherException ''IBMQBackendApiError''), Suc w),
      job_id = \<lambda>(j::nat) w. (Inr ''j42'', w),
      download_url = \<lambda>p jid w. (Inl KeyError, Suc w),
      result_url = \<lambda>p jid w. (Inr (PStr ''https://r''), Suc w)\<rparr>"
  have a: "get_job_try ?s ''j42'' (0::nat) = (Inl (OtherException ''IBMQBackendApiError''), 3) \<and>
      isinstance_Exception (OtherException ''IBMQBackendApiError'')"
    by (simp add: get_job_try_def get_provider_def numeral_3_eq_3)
  have b: "get_job_urls_try ?s (Job 42) (0::nat) = (Inl KeyError, 3) \<and>
      isinstance_Exception KeyError"
    by (simp add: get_job_urls_try_def get_provider_def numeral_3_eq_3)
  from job_utilities_except_Exception [THEN conjunct1, THEN mp, OF a]
    job_utilities_except_Exception [THEN conjunct2, THEN conjunct1, THEN mp, OF b]
  show ?thesis by (rule conjI)
qed

text \<open>
  C8 as stated has every exception swallowed. An interrupt from the keyboard during the
  call to the service is raised as \<^verbatim>\<open>KeyboardInterrupt\<close> and leaves both functions.
\<close>

theorem job_utilities_KeyboardInterrupt_counterexample:
  "get_job
     \<lparr>IBMQ_get_provider = \<lambda>w. (Inr (7::nat), Suc w),
      IBMQ_load_account = \<lambda>w. (Inr 7, Suc w),
      retrieve_job = \<lambda>p jid w. (Inl KeyboardInterrupt, Suc w),
      job_id = \<lambda>(j::nat) w. (Inr ''j42'', w),
      download_url = \<lambda>p jid w. (Inl KeyboardInterrupt, Suc w),
      result_url = \<lambda>p jid w. (Inr (PStr ''https://r''), Suc w)\<rparr> ''j42'' (0::nat)
     = (Inl KeyboardInterrupt, 2) \<and>
   get_job_urls
     \<lparr>IBMQ_get_provider = \<lambda>w. (Inr (7::nat), Suc w),
      IBMQ_load_account = \<lambda>w. (Inr 7, Suc w),
      retrieve_job = \<lambda>p jid w. (Inl KeyboardInterrupt, Suc w),
      job_id = \<lambda>(j::nat) w. (Inr ''j42'', w),
      download_url = \<lambda>p jid w. (Inl KeyboardInterrupt, Suc w),
      result_url = \<lambda>p jid w. (Inr (PStr ''https://r''), Suc w)\<rparr> (JobId ''j42'') (0::nat)
     = (Inl KeyboardInterrupt, 2)"
  by (simp add: get_job_def get_job_try_def get_job_urls_def get_job_urls_try_def
      get_provider_def numeral_2_eq_2)

text \<open>
  C10. \<^verbatim>\<open>get_job_urls\<close> returns the pair of the two URLs when the statements under
  \<^verbatim>\<open>try\<close> succeed and the pair \<^verbatim>\<open>(None, None)\<close> when they raise an exception that
  \<^verbatim>\<open>except Exception\<close> catches. Whatever it returns is a tuple of two values, and no
  tuple of two values is described by its annotation
  \<^verbatim>\<open>Tuple[bool, Optional[str], Optional[str]]\<close>.
\<close>

theorem get_job_urls_pair:
  "(get_job_urls_try s job w = (Inr (d, r), w') \<longrightarrow>
      get_job_urls s job w = (Inr (PTuple [d, r]), w')) \<and>
   (get_job_urls_try s job w = (Inl e, w') \<and> isinstance_Exception e \<longrightarrow>
      get_job_urls s job w = (Inr (PTuple [PNone, PNone]), w')) \<and>
   (get_job_urls s job w = (Inr v, w'') \<longrightarrow>
      (\<exists>x y. v = PTuple [x, y]) \<and> \<not> annotated_return v)"
  by (auto simp: get_job_urls_def split: prod.splits sum.splits if_splits)

theorem get_job_urls_pair_witness:
  "get_job_urls
     \<lparr>IBMQ_get_provider = \<lambda>w. (Inr (7::nat), Suc w),
      IBMQ_load_account = \<lambda>w. (Inr 7, Suc w),
      retrieve_job = \<lambda>p jid w. (Inr (42::nat), Suc w),
      job_id = \<lambda>j w. (Inr ''j42'', w),
      download_url = \<lambda>p jid w. (Inr (PStr ''https://d''), Suc w),
      result_url = \<lambda>p jid w. (Inr (PStr ''https://r''), Suc w)\<rparr> (Job 42) (0::nat)
     = (Inr (PTuple [PStr ''https://d'', PStr ''https://r'']), 4) \<and>
   \<not> annotated_return (PTuple [PStr ''https://d'', PStr ''https://r''])"
proof -
  let ?s = "\<lparr>IBMQ_get_provider = \<lambda>w. (Inr (7::nat), Suc w),
      IBMQ_load_account = \<lambda>w. (Inr 7, Suc w),
      retrieve_job = \<lambda>p jid w. (Inr (42::nat), Suc w),
      job_id = \<lambda>j w. (Inr ''j42'', w),
      download_url = \<lambda>p jid w. (Inr (PStr ''https://d''), Suc w),
      result_url = \<lambda>p jid w. (Inr (PStr ''https://r''), Suc w)\<rparr>"
  have a: "get_job_urls_try ?s (Job 42) (0::nat)
      = (Inr (PStr ''https://d'', PStr ''https://r''), 4)"
    by (simp add: get_job_urls_try_def get_provider_def eval_nat_numeral)
  from get_job_urls_pair [THEN conjunct1, THEN mp, OF a]
  have b: "get_job_urls ?s (Job 42) (0::nat)
      = (Inr (PTuple [PStr ''https://d'', PStr ''https://r'']), 4)" .
  from get_job_urls_pair [THEN conjunct2, THEN conjunct2, THEN mp, OF b]
  have "\<not> annotated_return (PTuple [PStr ''https://d'', PStr ''https://r''])" by simp
  with b show ?thesis by (rule conjI)
qed

subsection \<open>Termination\<close>

text \<open>More depth never changes a result that a smaller depth has produced.\<close>

lemma fuel_mono:
  "gate_cost_at n h c r = Some x \<Longrightarrow> n \<le> m \<Longrightarrow> gate_cost_at m h c r = Some x"
  "gate_cost_body_at n h c r = Some x \<Longrightarrow> n \<le> m \<Longrightarrow> gate_cost_body_at m h c r = Some x"
  "sum_costs_at n h c data = Some x \<Longrightarrow> n \<le> m \<Longrightarrow> sum_costs_at m h c data = Some x"
proof (induction n h c r and n h c r and n h c data arbitrary: m x and m x and m x
    rule: gate_cost_at_gate_cost_body_at_sum_costs_at.induct)
  case (1 h c r)
  then show ?case by simp
next
  case (2 n h c r)
  from 2(3) obtain m' where m: "m = Suc m'" and le: "n \<le> m'" by (cases m) auto
  show ?case
  proof (cases "c (gate_key_at h r)")
    case None
    with 2(2) obtain y where b: "gate_cost_body_at n h c r = Some y"
      by (auto split: option.splits)
    from 2(1)[OF refl None b le] have b': "gate_cost_body_at m' h c r = Some y" .
    from 2(2) None b have "x = (case y of (Inl e, c') \<Rightarrow> (Inl e, c')
        | (Inr v, c') \<Rightarrow> (Inr v, c'(gate_key_at h r \<mapsto> v)))"
      by (auto split: prod.splits sum.splits)
    with None b' m show ?thesis by (auto split: prod.splits sum.splits)
  next
    case (Some v)
    with 2(2) m show ?thesis by simp
  qed
next
  case (3 n h c r)
  show ?case
  proof (cases "cls_of (h r) = UGate \<or> cls_of (h r) = U3Gate \<or> cls_of (h r) = CXGate")
    case True
    with 3(2) show ?thesis by (auto simp: gate_cost_body_at.simps)
  next
    case False
    show ?thesis
    proof (cases "definition_of (h r)")
      case None
      with False 3(2) show ?thesis by (simp add: gate_cost_body_at.simps)
    next
      case (Some data)
      with False 3(2) have "sum_costs_at n h c data = Some x"
        by (simp add: gate_cost_body_at.simps)
      with False Some 3(1) 3(3) have "sum_costs_at m h c data = Some x" by blast
      with False Some show ?thesis by (simp add: gate_cost_body_at.simps)
    qed
  qed
next
  case (4 n h c)
  then show ?case by simp
next
  case (5 n h c r uu uv data)
  from 5(3) obtain y where g: "gate_cost_at n h c r = Some y" by (auto split: option.splits)
  from 5(1)[OF g 5(4)] have g': "gate_cost_at m h c r = Some y" .
  obtain res c' where y: "y = (res, c')" by (cases y)
  show ?case
  proof (cases res)
    case (Inl e)
    with g y 5(3) have "x = (Inl e, c')" by simp
    with g' y Inl show ?thesis by simp
  next
    case (Inr v)
    with g y 5(3) obtain z where s: "sum_costs_at n h c' data = Some z"
      by (auto split: option.splits)
    from 5(2)[OF g y[symmetric] Inr s 5(4)] have s': "sum_costs_at m h c' data = Some z" .
    from 5(3) g y Inr s have "x = (case z of (Inl e, c'') \<Rightarrow> (Inl e, c'')
        | (Inr t, c'') \<Rightarrow> (Inr (v + t), c''))"
      by (auto split: prod.splits sum.splits)
    with g' y Inr s' show ?thesis by (auto split: prod.splits sum.splits)
  qed
qed


lemma sum_costs_at_bound:
  "(\<forall>e \<in> set data. \<exists>n. \<forall>c. gate_cost_at n h c (fst e) \<noteq> None) \<Longrightarrow>
   \<exists>n. \<forall>c. sum_costs_at n h c data \<noteq> None"
proof (induction data)
  case Nil
  show ?case by simp
next
  case (Cons e data)
  obtain r q a where e: "e = (r, q, a)" by (cases e)
  from Cons.prems e obtain n1 where n1: "\<forall>c. gate_cost_at n1 h c r \<noteq> None" by auto
  from Cons obtain n2 where n2: "\<forall>c. sum_costs_at n2 h c data \<noteq> None" by auto
  have "sum_costs_at (max n1 n2) h c ((r, q, a) # data) \<noteq> None" for c
  proof -
    from n1 obtain y where "gate_cost_at n1 h c r = Some y" by blast
    then have g: "gate_cost_at (max n1 n2) h c r = Some y" by (rule fuel_mono(1)) simp
    obtain res c' where y: "y = (res, c')" by (cases y)
    from n2 obtain z where "sum_costs_at n2 h c' data = Some z" by blast
    then have "sum_costs_at (max n1 n2) h c' data = Some z" by (rule fuel_mono(3)) simp
    with g y show ?thesis by (auto split: sum.splits prod.splits)
  qed
  with e show ?case by blast
qed

lemma gate_cost_at_body:
  "gate_cost_body_at n h c r \<noteq> None \<Longrightarrow> gate_cost_at (Suc n) h c r \<noteq> None"
  by (auto simp: Let_def split: option.splits sum.splits prod.splits)

text \<open>
  C9. When the decomposition relation of the store is well-founded, that is when no gate is
  reached from itself through definitions and every chain of definitions ends,
  \<^verbatim>\<open>gate_cost\<close> returns for every gate: there is a depth of nested calls that is enough in
  every state of the cache, and the call then returns a cost or raises an exception.
\<close>

theorem gate_cost_total:
  assumes "wf (decomposition h)"
  shows "\<exists>n. \<forall>c. \<exists>res c'. gate_cost_at n h c r = Some (res, c')"
proof -
  from assms have "\<exists>n. \<forall>c. gate_cost_at n h c r \<noteq> None"
  proof (induction r rule: wf_induct_rule)
    case (less r)
    have "\<exists>n. \<forall>c. gate_cost_body_at n h c r \<noteq> None"
    proof (cases "definition_of (h r)")
      case None
      then show ?thesis by (simp add: gate_cost_body_at.simps)
    next
      case (Some data)
      have "\<forall>e \<in> set data. \<exists>n. \<forall>c. gate_cost_at n h c (fst e) \<noteq> None"
      proof
        fix e assume "e \<in> set data"
        with Some have "(fst e, r) \<in> decomposition h" by (auto simp: decomposition_def)
        then show "\<exists>n. \<forall>c. gate_cost_at n h c (fst e) \<noteq> None" by (rule less)
      qed
      then obtain n where "\<forall>c. sum_costs_at n h c data \<noteq> None"
        using sum_costs_at_bound by blast
      with Some have "\<forall>c. gate_cost_body_at n h c r \<noteq> None"
        by (simp add: gate_cost_body_at.simps)
      then show ?thesis ..
    qed
    then obtain n where "\<forall>c. gate_cost_body_at n h c r \<noteq> None" ..
    then have "\<forall>c. gate_cost_at (Suc n) h c r \<noteq> None"
      using gate_cost_at_body by blast
    then show ?case ..
  qed
  then show ?thesis by auto
qed

text \<open>
  The instance: a store with a \<^verbatim>\<open>ccx\<close> gate at reference 0 whose definition refers twice
  to the \<^verbatim>\<open>u\<close> gate at reference 1 and once to the \<^verbatim>\<open>cx\<close> gate at reference 2. Depth 2
  is enough from the empty cache.
\<close>

theorem gate_cost_total_witness:
  "wf (decomposition
     ((\<lambda>r. Obj UGate ''u'' 1 None)
        (0 := Obj OtherGate ''ccx'' 3 (Some [(1, [0], []), (1, [1], []), (2, [0, 1], [])]),
         2 := Obj CXGate ''cx'' 2 None))) \<and>
   (\<exists>n. \<forall>c. \<exists>res c'. gate_cost_at n
     ((\<lambda>r. Obj UGate ''u'' 1 None)
        (0 := Obj OtherGate ''ccx'' 3 (Some [(1, [0], []), (1, [1], []), (2, [0, 1], [])]),
         2 := Obj CXGate ''cx'' 2 None)) c 0 = Some (res, c')) \<and>
   gate_cost_at 2
     ((\<lambda>r. Obj UGate ''u'' 1 None)
        (0 := Obj OtherGate ''ccx'' 3 (Some [(1, [0], []), (1, [1], []), (2, [0, 1], [])]),
         2 := Obj CXGate ''cx'' 2 None)) Map.empty 0
     = Some (Inr 12, [(''u'', 1) \<mapsto> 1, (''cx'', 2) \<mapsto> 10, (''ccx'', 3) \<mapsto> 12])"
proof -
  let ?h = "(\<lambda>r. Obj UGate ''u'' 1 None)
        (0 := Obj OtherGate ''ccx'' 3 (Some [(1, [0], []), (1, [1], []), (2, [0, 1], [])]),
         2 := Obj CXGate ''cx'' 2 None)"
  have "decomposition ?h \<subseteq> measure (\<lambda>r. if r = 0 then 1 else 0)"
    by (auto simp: decomposition_def split: if_splits)
  then have w: "wf (decomposition ?h)" by (rule wf_subset [OF wf_measure])
  have v: "gate_cost_at 2 ?h Map.empty 0
     = Some (Inr 12, [(''u'', 1) \<mapsto> 1, (''cx'', 2) \<mapsto> 10, (''ccx'', 3) \<mapsto> 12])"
    by (simp add: numeral_2_eq_2 gate_cost_body_at.simps gate_key_at.simps)
  from w gate_cost_total [OF w, of 0] v show ?thesis by (intro conjI)
qed

text \<open>
  The condition matters: a gate whose definition begins with the gate itself, and whose key is
  not cached, does not return at any depth.
\<close>

lemma gate_cost_at_cyclic:
  assumes "cls_of (h r) = OtherGate" and "definition_of (h r) = Some ((r, q, a) # data)"
    and "c (gate_key_at h r) = None"
  shows "gate_cost_at n h c r = None"
proof (induction n)
  case 0
  show ?case by simp
next
  case (Suc n)
  with assms show ?case by (simp add: gate_cost_body_at.simps)
qed

text \<open>
  The two models agree: for an object that a gate unfolds, every depth from some depth on
  gives, in every cache, exactly the result and the cache of \<^verbatim>\<open>gate_cost\<close> on that gate.
\<close>

lemma gate_cost_at_Suc:
  "gate_cost_body_at m h c r = Some (gate_cost_body c g) \<Longrightarrow>
   gate_key_at h r = gate_key g \<Longrightarrow>
   gate_cost_at (Suc m) h c r = Some (gate_cost c g)"
  by (cases "c (gate_key g)")
    (auto simp: gate_cost.simps split: prod.splits sum.splits)

lemma represents_cost:
  "represents h r g \<Longrightarrow>
     \<exists>n. \<forall>m\<ge>n. \<forall>c. gate_cost_body_at m h c r = Some (gate_cost_body c g) \<and>
                   gate_cost_at (Suc m) h c r = Some (gate_cost c g)"
  "represents_data h rdata data \<Longrightarrow>
     \<exists>n. \<forall>m\<ge>n. \<forall>c. sum_costs_at m h c rdata = Some (sum_costs c data)"
proof (induction h r g and h rdata data rule: represents_represents_data.induct)
  case (1 h r k n q d)
  let ?g = "Instruction k n q d"
  from 1(2) have key: "gate_key_at h r = gate_key ?g"
    by (simp add: gate_key_at.simps gate_key.simps)
  have "\<exists>n. \<forall>m\<ge>n. \<forall>c. gate_cost_body_at m h c r = Some (gate_cost_body c ?g)"
  proof (cases d)
    case None
    with 1(2) show ?thesis
      by (simp add: gate_cost_body_at.simps gate_cost_body.simps)
  next
    case (Some data)
    with 1(2) obtain rdata where rd: "definition_of (h r) = Some rdata"
      and rep: "represents_data h rdata data"
      by (auto split: option.splits)
    from 1(1)[OF Some rd rep] obtain n' where
      "\<forall>m\<ge>n'. \<forall>c. sum_costs_at m h c rdata = Some (sum_costs c data)" ..
    with 1(2) Some rd have "\<forall>m\<ge>n'. \<forall>c. gate_cost_body_at m h c r = Some (gate_cost_body c ?g)"
      by (simp add: gate_cost_body_at.simps gate_cost_body.simps)
    then show ?thesis ..
  qed
  then obtain n' where "\<forall>m\<ge>n'. \<forall>c. gate_cost_body_at m h c r = Some (gate_cost_body c ?g)" ..
  with key have "\<forall>m\<ge>n'. \<forall>c. gate_cost_body_at m h c r = Some (gate_cost_body c ?g) \<and>
      gate_cost_at (Suc m) h c r = Some (gate_cost c ?g)"
    using gate_cost_at_Suc by blast
  then show ?case ..
next
  case (2 h)
  show ?case by simp
next
  case (3 h r qargs cargs rdata g qargs' cargs' data)
  from 3(3) have rg: "represents h r g" and rd: "represents_data h rdata data" by simp_all
  from 3(1)[OF rg] obtain n1 where
    n1: "\<forall>m\<ge>n1. \<forall>c. gate_cost_at (Suc m) h c r = Some (gate_cost c g)" by blast
  from 3(2)[OF rd] obtain n2 where
    n2: "\<forall>m\<ge>n2. \<forall>c. sum_costs_at m h c rdata = Some (sum_costs c data)" ..
  have "sum_costs_at m h c ((r, qargs, cargs) # rdata)
      = Some (sum_costs c ((g, qargs', cargs') # data))"
    if "m \<ge> max (Suc n1) n2" for m c
  proof -
    from that obtain m' where m: "m = Suc m'" and "n1 \<le> m'" by (cases m) auto
    with n1 have g: "gate_cost_at m h c r = Some (gate_cost c g)" by simp
    from that n2 have s: "\<forall>c'. sum_costs_at m h c' rdata = Some (sum_costs c' data)" by simp
    from g s show ?thesis by (auto split: prod.splits sum.splits)
  qed
  then show ?case by blast
next
  case (4 h uu uv)
  then show ?case by simp
next
  case (5 h uw ux)
  then show ?case by simp
qed

end
